theory Spec2Isabelle
  imports Main "HOL-Library.AList"
begin

section \<open>Data model of the action service\<close>

text \<open>
  The development embeds \<^verbatim>\<open>src/bp/core/services/action/action-service.ts\<close>.
  Values of the TypeScript program are modelled as follows: an object type is a record, a
  union of string literals is a datatype, a \<^verbatim>\<open>Map\<close> is an association list read with
  \<open>map_of\<close> and written with \<open>AList.update\<close>, an \<^verbatim>\<open>async\<close> method that may throw
  returns a pair of its outcome (\<open>Inl\<close> the thrown error, \<open>Inr\<close> the value) and the
  service state it leaves behind.
\<close>

datatype ActionLocation = Local | Global

record ActionDefinition =
  name :: string
  isRemote :: bool
  location :: ActionLocation
  legacy :: bool
  metadata :: "string option"

text \<open>A thrown JavaScript \<^verbatim>\<open>Error\<close>: the fields the service reads from it.\<close>

record JsError =
  message :: string
  stack :: string
  isAxiosError :: bool
  errCode :: "string option"

datatype jsval = JNum int | JStr string | JBool bool

text \<open>
  A value that JavaScript code throws. The libraries that the service calls reject with
  \<^verbatim>\<open>Error\<close> objects. A script may throw any value: an \<^verbatim>\<open>Error\<close>,
  \<^verbatim>\<open>null\<close>, \<^verbatim>\<open>undefined\<close>, or a primitive such as a string, on which
  \<^verbatim>\<open>.message\<close> and \<^verbatim>\<open>.stack\<close> are \<^verbatim>\<open>undefined\<close>.
\<close>

datatype thrownValue = ErrorObject JsError | NullValue | UndefinedValue | PrimitiveValue jsval

text \<open>What \<^verbatim>\<open>runAction\<close> can reject with: an error that escapes untouched, or the
  \<^verbatim>\<open>ActionExecutionError(message, actionName, stack)\<close> built in its catch block, whose
  message and stack are \<open>None\<close> when they are \<^verbatim>\<open>undefined\<close>.\<close>

datatype thrown = Thrown JsError | ActionExecutionError "string option" string "string option"

record EventState =
  user :: "(string \<times> jsval) list"
  temp :: "(string \<times> jsval) list"
  session :: "(string \<times> jsval) list"

record IncomingEvent =
  eventId :: string
  botId :: string
  state :: EventState

record ActionServer =
  serverId :: string
  baseUrl :: string

record RunActionProps =
  actionName :: string
  actionServer :: "ActionServer option"
  incomingEvent :: IncomingEvent
  actionArgs :: string

text \<open>The request handed to \<^verbatim>\<open>axios\<close> and the part of its response that is read.
  \<open>respEvent\<close> is \<^verbatim>\<open>response.data.incomingEvent\<close>, \<open>None\<close> when the body has none.\<close>

record AxiosRequest =
  reqUrl :: string
  reqTimeout :: nat
  reqToken :: string
  reqBotId :: string
  reqActionName :: string
  reqIncomingEvent :: IncomingEvent
  reqActionArgs :: string

record AxiosResponse =
  respStatus :: int
  respEvent :: "IncomingEvent option"

datatype TaskStatus = completed | failed

record Task =
  taskEventId :: string
  taskActionName :: string
  taskActionArgs :: string
  taskActionServerId :: string
  startedAt :: nat
  endedAt :: nat
  status :: TaskStatus
  failureReason :: "string option"

text \<open>Calls that leave the service, in the order they are made.\<close>

datatype effect =
    ReadFile ActionLocation string
  | HttpPost AxiosRequest
  | RunWithoutVm string IncomingEvent string
  | RunInVm string string nat IncomingEvent string
  | RequireFromString string string string

text \<open>
  The collaborators of the service, which are not part of the file: the Content Store
  (\<^verbatim>\<open>ghost\<close>), the helpers of \<^verbatim>\<open>./utils\<close>, \<^verbatim>\<open>./metadata\<close>, \<^verbatim>\<open>./vm\<close> and
  \<^verbatim>\<open>modules/require\<close>, the workspace service, \<^verbatim>\<open>axios\<close>, \<^verbatim>\<open>jsonwebtoken\<close>,
  Node's \<^verbatim>\<open>path\<close>, the clock and the process environment. Each is a parameter.
  The two listings are what \<^verbatim>\<open>directoryListing('actions', '*.js', EXCLUDES)\<close> returns in
  the global and in the bot's scope. A listing that fails, a token that cannot be signed, an
  API that cannot be created and a task that cannot be stored are not modelled. Strings are
  ASCII.
  A script run either throws a value or yields the event object as the script leaves it; what
  a script did to the event before it threw is not tracked. \<open>requireFromString\<close> yields whether the
  exports are empty (\<^verbatim>\<open>_.isEmpty(exports)\<close>).
\<close>

text \<open>\<^verbatim>\<open>prepareRequire(dirPath, lookups)\<close>: the closure is determined by its two arguments.\<close>

type_synonym Require = "string \<times> string list"

definition prepareRequire :: "string \<Rightarrow> string list \<Rightarrow> Require" where
  "prepareRequire dirPath lookups = (dirPath, lookups)"

record Env =
  thisBotId :: string
  enabled :: "string \<Rightarrow> bool"
  extractMetadata :: "string \<Rightarrow> string"
  extractRequiredFiles :: "string \<Rightarrow> string list"
  getBaseLookupPaths :: "string \<Rightarrow> string list"
  prepareRequireTester :: "string \<Rightarrow> string list \<Rightarrow> string \<Rightarrow> bool"
  requireFromString :: "string \<Rightarrow> string \<Rightarrow> string \<Rightarrow> Require \<Rightarrow> thrownValue + bool"
  globalListing :: "string list"
  localListing :: "string list"
  globalReadFile :: "string \<Rightarrow> JsError + string"
  localReadFile :: "string \<Rightarrow> JsError + string"
  getBotWorkspaceId :: "string \<Rightarrow> JsError + string"
  signToken :: "string \<Rightarrow> string \<Rightarrow> string"
  axios :: "AxiosRequest \<Rightarrow> JsError + AxiosResponse"
  callFunction :: "string \<Rightarrow> Require \<Rightarrow> IncomingEvent \<Rightarrow> string \<Rightarrow> thrownValue + IncomingEvent"
  vmRunner :: "nat \<Rightarrow> string \<Rightarrow> string \<Rightarrow> Require \<Rightarrow> IncomingEvent \<Rightarrow> string \<Rightarrow> thrownValue + IncomingEvent"
  pathResolveJoin :: "string \<Rightarrow> string \<Rightarrow> string"
  PROJECT_LOCATION :: string
  BP_EXPERIMENTAL_REQUIRE_BPFS :: bool
  ASSERT_LICENSED :: "JsError option"
  dateStarted :: nat
  dateEnded :: nat

text \<open>
  The fields of \<^verbatim>\<open>ScopedActionService\<close>, followed by what the service writes outside
  itself: the tasks repository, the debug channel, the logger, and the trace of effects.
\<close>

record ScopedActionService =
  globalActionsCache :: "ActionDefinition list option"
  localActionsCache :: "ActionDefinition list option"
  scriptsCache :: "(string \<times> string) list"
  validScripts :: "string list"
  botsWorkspaceIdsCache :: "(string \<times> string) list"
  tasks :: "Task list"
  debugLog :: "(string \<times> string) list"
  errorLog :: "string list"
  effects :: "effect list"

type_synonym 'a result = "(thrownValue + 'a) \<times> ScopedActionService"

text \<open>\<^verbatim>\<open>const x = await m(...)\<close> followed by the rest of the method: a rejection
  skips the rest and keeps the state reached.\<close>

definition await :: "'a result \<Rightarrow> ('a \<Rightarrow> ScopedActionService \<Rightarrow> 'b result) \<Rightarrow> 'b result" where
  "await r k = (case r of (Inl e, s) \<Rightarrow> (Inl e, s) | (Inr x, s) \<Rightarrow> k x s)"

definition newError :: "string \<Rightarrow> JsError" where
  "newError msg = \<lparr>message = msg, stack = ''Error: '' @ msg, isAxiosError = False, errCode = None\<rparr>"

text \<open>The \<^verbatim>\<open>TypeError\<close> of a property read on \<^verbatim>\<open>null\<close> or \<^verbatim>\<open>undefined\<close>.\<close>

definition typeError :: "string \<Rightarrow> JsError" where
  "typeError msg =
     \<lparr>message = msg, stack = ''TypeError: '' @ msg, isAxiosError = False, errCode = None\<rparr>"

text \<open>The outcome of a call into a library: its rejection is an \<^verbatim>\<open>Error\<close> object.\<close>

definition fromLibrary :: "JsError + 'a \<Rightarrow> thrownValue + 'a" where
  "fromLibrary r = (case r of Inl e \<Rightarrow> Inl (ErrorObject e) | Inr x \<Rightarrow> Inr x)"

section \<open>String helpers of the JavaScript runtime\<close>

definition toLowerChar :: "char \<Rightarrow> char" where
  "toLowerChar c =
     (case map_of (zip ''ABCDEFGHIJKLMNOPQRSTUVWXYZ'' ''abcdefghijklmnopqrstuvwxyz'') c of
        Some l \<Rightarrow> l | None \<Rightarrow> c)"

definition toLowerCase :: "string \<Rightarrow> string" where
  "toLowerCase s = map toLowerChar s"

definition startsWith :: "string \<Rightarrow> string \<Rightarrow> bool" where
  "startsWith s p = (take (length p) s = p)"

text \<open>\<^verbatim>\<open>s.indexOf(sub)\<close>: the first position at which \<open>sub\<close> occurs, or \<open>-1\<close>.\<close>

fun indexOfFrom :: "int \<Rightarrow> string \<Rightarrow> string \<Rightarrow> int" where
  "indexOfFrom i [] sub = (if sub = [] then i else - 1)"
| "indexOfFrom i (c # cs) sub =
     (if startsWith (c # cs) sub then i else indexOfFrom (i + 1) cs sub)"

definition indexOf :: "string \<Rightarrow> string \<Rightarrow> int" where
  "indexOf s sub = indexOfFrom 0 s sub"

definition includesStr :: "string \<Rightarrow> string \<Rightarrow> bool" where
  "includesStr s sub = (indexOf s sub > - 1)"

text \<open>
  \<^verbatim>\<open>file.replace(/\.js|\.http\.js$/i, '')\<close>: the leftmost match is removed, and at
  each position the alternative \<^verbatim>\<open>\.js\<close> is tried before \<^verbatim>\<open>\.http\.js$\<close>.
  The flag \<^verbatim>\<open>i\<close> is modelled by matching the lower-cased text. \<open>matchJs\<close> yields the
  position and the length of the match.
\<close>

fun matchJs :: "string \<Rightarrow> (nat \<times> nat) option" where
  "matchJs [] = None"
| "matchJs (c # cs) =
     (if startsWith (c # cs) ''.js'' then Some (0, 3)
      else if c # cs = ''.http.js'' then Some (0, 8)
      else (case matchJs cs of None \<Rightarrow> None | Some (i, n) \<Rightarrow> Some (i + 1, n)))"

definition replaceJs :: "string \<Rightarrow> string" where
  "replaceJs file =
     (case matchJs (toLowerCase file) of
        None \<Rightarrow> file
      | Some (i, n) \<Rightarrow> take i file @ drop (i + n) file)"

text \<open>\<^verbatim>\<open>name.split('/')[0]\<close>\<close>

definition splitHead :: "string \<Rightarrow> string" where
  "splitHead s = takeWhile (\<lambda>c. c \<noteq> CHR ''/'') s"

definition boolString :: "bool \<Rightarrow> string" where
  "boolString b = (if b then ''true'' else ''false'')"

definition locationString :: "ActionLocation \<Rightarrow> string" where
  "locationString l = (case l of Global \<Rightarrow> ''global'' | Local \<Rightarrow> ''local'')"

section \<open>The action catalog\<close>

text \<open>\<^verbatim>\<open>ghost.global().readFileAsString('actions', f)\<close> and
  \<^verbatim>\<open>ghost.forBot(botId).readFileAsString('actions', f)\<close>: what the read yields, and the
  call, which is recorded.\<close>

definition readFile :: "Env \<Rightarrow> ActionLocation \<Rightarrow> string \<Rightarrow> JsError + string" where
  "readFile env loc filename =
     (case loc of Global \<Rightarrow> globalReadFile env filename | Local \<Rightarrow> localReadFile env filename)"

definition readFileAsString :: "Env \<Rightarrow> ActionLocation \<Rightarrow> string \<Rightarrow> ScopedActionService \<Rightarrow> string result" where
  "readFileAsString env loc filename s =
     (fromLibrary (readFile env loc filename),
      s\<lparr>effects := effects s @ [ReadFile loc filename]\<rparr>)"

text \<open>The file that \<^verbatim>\<open>getActionScript\<close> reads for an action, and the key
  \<^verbatim>\<open>`${action.name}_${action.legacy}_${action.location}`\<close> under which it stores the
  script.\<close>

definition scriptFile :: "ActionDefinition \<Rightarrow> string" where
  "scriptFile action =
     (if location action = Global then name action @ ''.js''
      else if legacy action then name action @ ''.js'' else name action @ ''.http.js'')"

definition scriptKey :: "ActionDefinition \<Rightarrow> string" where
  "scriptKey action =
     name action @ ''_'' @ boolString (legacy action) @ ''_'' @ locationString (location action)"

text \<open>The cache is read under \<^verbatim>\<open>action.name\<close> and written under the key above, as in
  the source.\<close>

definition getActionScript :: "Env \<Rightarrow> ActionDefinition \<Rightarrow> ScopedActionService \<Rightarrow> string result" where
  "getActionScript env action s =
     (case map_of (scriptsCache s) (name action) of
        Some cached \<Rightarrow> (Inr cached, s)
      | None \<Rightarrow>
          await (readFileAsString env (location action) (scriptFile action) s)
            (\<lambda>script s1.
               (Inr script,
                s1\<lparr>scriptsCache := AList.update (scriptKey action) script (scriptsCache s1)\<rparr>)))"

text \<open>The object that \<^verbatim>\<open>getActionDefinition\<close> builds from a file name.\<close>

definition newActionDefinition :: "string \<Rightarrow> ActionLocation \<Rightarrow> ActionDefinition" where
  "newActionDefinition file loc =
     \<lparr>name = replaceJs file, isRemote = False, location = loc,
      legacy = (\<not> includesStr file ''.http.js''), metadata = None\<rparr>"

definition withMetadata :: "Env \<Rightarrow> ActionDefinition \<Rightarrow> string \<Rightarrow> ActionDefinition" where
  "withMetadata env action script = action\<lparr>metadata := Some (extractMetadata env script)\<rparr>"

definition getActionDefinition ::
  "Env \<Rightarrow> string \<Rightarrow> ActionLocation \<Rightarrow> bool \<Rightarrow> ScopedActionService \<Rightarrow> ActionDefinition result" where
  "getActionDefinition env file loc includeMetadata s =
     (let action = newActionDefinition file loc
      in if includeMetadata
         then await (getActionScript env action s)
                (\<lambda>script s1. (Inr (withMetadata env action script), s1))
         else (Inr action, s))"

text \<open>The fulfilled values of a list of promises, or the first rejection.\<close>

fun collect :: "('e + 'a) list \<Rightarrow> 'e + 'a list" where
  "collect [] = Inr []"
| "collect (Inl e # rs) = Inl e"
| "collect (Inr x # rs) = (case collect rs of Inl e \<Rightarrow> Inl e | Inr xs \<Rightarrow> Inr (x # xs))"

text \<open>
  \<^verbatim>\<open>Promise.map(actionFiles, async file => this.getActionDefinition(file, loc, true))\<close>.
  The mapper is called for every file in turn before any of its promises settles, and each
  call runs up to its first pending \<^verbatim>\<open>await\<close>: every look-up in the script cache sees
  the cache as it is before the listing, and every action whose look-up misses has its file
  read. The reads then complete, and each one that succeeds writes the cache. The promise
  fulfils with the definitions in the order of the files, or rejects once a read fails, while
  the other reads still complete. The model yields the state in which all reads have
  completed and, when several reads fail, the error of the first of them in the order of the
  files.
\<close>

definition getActionDefinitions ::
  "Env \<Rightarrow> ActionLocation \<Rightarrow> string list \<Rightarrow> ScopedActionService \<Rightarrow> ActionDefinition list result" where
  "getActionDefinitions env loc files s =
     (let actions = map (\<lambda>file. newActionDefinition file loc) files;
          cache = scriptsCache s;
          missing = filter (\<lambda>a. map_of cache (name a) = None) actions;
          written = fold (\<lambda>a c. case readFile env (location a) (scriptFile a) of
                                   Inl e \<Rightarrow> c
                                 | Inr script \<Rightarrow> AList.update (scriptKey a) script c)
                      missing cache
      in (collect
            (map (\<lambda>a. case map_of cache (name a) of
                         Some cached \<Rightarrow> Inr (withMetadata env a cached)
                       | None \<Rightarrow>
                           (case readFile env (location a) (scriptFile a) of
                              Inl e \<Rightarrow> Inl (ErrorObject e)
                            | Inr script \<Rightarrow> Inr (withMetadata env a script)))
               actions),
          s\<lparr>effects := effects s @ map (\<lambda>a. ReadFile (location a) (scriptFile a)) missing,
            scriptsCache := written\<rparr>))"

definition listGlobalActions :: "Env \<Rightarrow> ScopedActionService \<Rightarrow> ActionDefinition list result" where
  "listGlobalActions env s =
     (case globalActionsCache s of
        Some cached \<Rightarrow> (Inr cached, s)
      | None \<Rightarrow>
          await (getActionDefinitions env Global (filter (enabled env) (globalListing env)) s)
            (\<lambda>actions s1. (Inr actions, s1\<lparr>globalActionsCache := Some actions\<rparr>)))"

definition listLocalActions :: "Env \<Rightarrow> ScopedActionService \<Rightarrow> ActionDefinition list result" where
  "listLocalActions env s =
     (case localActionsCache s of
        Some cached \<Rightarrow> (Inr cached, s)
      | None \<Rightarrow>
          await (getActionDefinitions env Local (filter (enabled env) (localListing env)) s)
            (\<lambda>actions s1. (Inr actions, s1\<lparr>localActionsCache := Some actions\<rparr>)))"

definition listActions :: "Env \<Rightarrow> ScopedActionService \<Rightarrow> ActionDefinition list result" where
  "listActions env s =
     await (listGlobalActions env s)
       (\<lambda>globalActions s1. await (listLocalActions env s1)
          (\<lambda>localActions s2. (Inr (globalActions @ localActions), s2)))"

definition hasAction :: "Env \<Rightarrow> string \<Rightarrow> ScopedActionService \<Rightarrow> bool result" where
  "hasAction env actionName' s =
     await (listActions env s)
       (\<lambda>actions s1. (Inr (find (\<lambda>x. name x = actionName') actions \<noteq> None), s1))"

definition findAction :: "Env \<Rightarrow> string \<Rightarrow> ScopedActionService \<Rightarrow> ActionDefinition result" where
  "findAction env actionName' s =
     await (listActions env s)
       (\<lambda>actions s1.
          case find (\<lambda>x. name x = actionName') actions of
            None \<Rightarrow>
              (Inl (ErrorObject (newError (''Action \"'' @ actionName' @ ''\" not found''))), s1)
          | Some action \<Rightarrow> (Inr action, s1))"

record ActionDetails =
  detCode :: string
  detDirPath :: string
  detLookups :: "string list"
  detAction :: ActionDefinition

definition getActionDetails :: "Env \<Rightarrow> string \<Rightarrow> ScopedActionService \<Rightarrow> ActionDetails result" where
  "getActionDetails env actionName' s =
     await (findAction env actionName' s)
       (\<lambda>action s1. await (getActionScript env action s1)
          (\<lambda>script s2.
             let botFolder = (if location action = Global then ''global''
                              else ''bots/'' @ thisBotId env);
                 dirPath = pathResolveJoin env (PROJECT_LOCATION env)
                             (''/data/'' @ botFolder @ ''/actions/'' @ actionName' @ ''.js'')
             in (Inr \<lparr>detCode = script, detDirPath = dirPath,
                       detLookups = getBaseLookupPaths env dirPath, detAction = action\<rparr>, s2)))"

section \<open>Trust classification\<close>

definition BUILTIN_MODULES :: "string list" where
  "BUILTIN_MODULES =
     [''analytics'', ''basic-skills'', ''builtin'', ''builtin'', ''channel-messenger'',
      ''channel-slack'', ''channel-teams'', ''channel-telegram'', ''channel-web'',
      ''code-editor'', ''examples'', ''extensions'', ''history'', ''hitl'', ''nlu'', ''qna'',
      ''testing'']"

definition listTrustedActions :: "Env \<Rightarrow> ScopedActionService \<Rightarrow> ActionDefinition list result" where
  "listTrustedActions env s =
     await (listGlobalActions env s)
       (\<lambda>globalActions s1.
          (Inr (filter (\<lambda>a. splitHead (name a) \<in> set BUILTIN_MODULES) globalActions), s1))"

definition isTrustedAction :: "Env \<Rightarrow> string \<Rightarrow> ScopedActionService \<Rightarrow> bool result" where
  "isTrustedAction env actionName' s =
     await (listTrustedActions env s)
       (\<lambda>trustedActions s1. (Inr (actionName' \<in> set (map name trustedActions)), s1))"

section \<open>Validation of required files\<close>

text \<open>\<^verbatim>\<open>this._validScripts\<close> is a plain object: a read of a key that the object does not
  own falls through to \<^verbatim>\<open>Object.prototype\<close>, whose members are truthy, and an assignment
  to \<^verbatim>\<open>__proto__\<close> of a primitive is ignored.\<close>

definition objectPrototypeKeys :: "string list" where
  "objectPrototypeKeys =
     [''constructor'', ''__proto__'', ''hasOwnProperty'', ''isPrototypeOf'',
      ''propertyIsEnumerable'', ''toLocaleString'', ''toString'', ''valueOf'',
      ''__defineGetter__'', ''__defineSetter__'', ''__lookupGetter__'', ''__lookupSetter__'']"

definition isValidScript :: "ScopedActionService \<Rightarrow> string \<Rightarrow> bool" where
  "isValidScript s key = (key \<in> set (validScripts s) \<or> key \<in> set objectPrototypeKeys)"

definition markValidScript :: "string \<Rightarrow> ScopedActionService \<Rightarrow> ScopedActionService" where
  "markValidScript key s =
     (if key = ''__proto__'' \<or> key \<in> set (validScripts s) then s
      else s\<lparr>validScripts := validScripts s @ [key]\<rparr>)"

text \<open>The body of the \<^verbatim>\<open>try\<close> block of \<^verbatim>\<open>checkActionRequires\<close> after the recursive
  call: the required file's details are fetched and its text is required from a string.\<close>

definition loadRequiredFile :: "Env \<Rightarrow> string \<Rightarrow> string \<Rightarrow> ScopedActionService \<Rightarrow> unit result" where
  "loadRequiredFile env file parentScript s =
     await (getActionDetails env file s)
       (\<lambda>d s1.
          let s2 = s1\<lparr>effects := effects s1 @ [RequireFromString (detCode d) file parentScript]\<rparr>
          in case requireFromString env (detCode d) file parentScript
                    (prepareRequire (detDirPath d) (detLookups d)) of
               Inl e \<Rightarrow> (Inl e, s2)
             | Inr isEmpty \<Rightarrow>
                 (Inr (),
                  if isEmpty
                  then s2\<lparr>errorLog := errorLog s2 @
                         [''Your required file ('' @ file @ '') looks empty. Missing module.exports ? '']\<rparr>
                  else s2))"

text \<open>
  The \<^verbatim>\<open>for (const file of files)\<close> loop. \<open>recur\<close> is the recursive call
  \<^verbatim>\<open>this.checkActionRequires\<close>; it yields \<open>None\<close> when it does not return. The loop yields
  \<open>False\<close> when it leaves the method through \<^verbatim>\<open>return false\<close> and \<open>True\<close> when it
  runs to its end.
\<close>

fun requiredFilesLoop ::
  "(string \<Rightarrow> ScopedActionService \<Rightarrow> bool result option) \<Rightarrow> Env \<Rightarrow> string \<Rightarrow> ActionDetails
     \<Rightarrow> string list \<Rightarrow> ScopedActionService \<Rightarrow> (bool \<times> ScopedActionService) option" where
  "requiredFilesLoop recur env actionName' parent [] s = Some (True, s)"
| "requiredFilesLoop recur env actionName' parent (file # files) s =
     (if prepareRequireTester env (detDirPath parent) (detLookups parent) file
      then requiredFilesLoop recur env actionName' parent files s
      else
        (case recur file s of
           None \<Rightarrow> None
         | Some r \<Rightarrow>
             (case await r (\<lambda>_ s1. loadRequiredFile env file (detDirPath parent) s1) of
                (Inl err, s2) \<Rightarrow>
                  Some (False,
                        s2\<lparr>errorLog := errorLog s2 @
                             [''There is an issue with required file '' @ file @ ''.js in action ''
                                @ actionName' @ ''.js'']\<rparr>)
              | (Inr _, s2) \<Rightarrow> requiredFilesLoop recur env actionName' parent files s2)))"

text \<open>
  \<^verbatim>\<open>checkActionRequires\<close> calls itself for every required file that the tester rejects,
  with nothing that bounds the depth. The first argument is fuel: the number of nested calls
  still allowed. \<open>None\<close> says the fuel ran out; an execution that returns is one that yields
  \<open>Some\<close> for some amount of fuel.
\<close>

primrec checkActionRequires ::
  "nat \<Rightarrow> Env \<Rightarrow> string \<Rightarrow> ScopedActionService \<Rightarrow> bool result option" where
  "checkActionRequires 0 env actionName' s = None"
| "checkActionRequires (Suc fuel) env actionName' s =
     (if isValidScript s actionName' then Some (Inr True, s)
      else
        (case getActionDetails env actionName' s of
           (Inl e, s1) \<Rightarrow> Some (Inl e, s1)
         | (Inr parent, s1) \<Rightarrow>
             (case requiredFilesLoop (checkActionRequires fuel env) env actionName' parent
                     (extractRequiredFiles env (detCode parent)) s1 of
                None \<Rightarrow> None
              | Some (completedLoop, s2) \<Rightarrow>
                  if completedLoop then Some (Inr True, markValidScript actionName' s2)
                  else Some (Inr False, s2))))"

section \<open>Loading and running an action\<close>

text \<open>The value of \<^verbatim>\<open>checkActionRequires\<close> is awaited and not used.\<close>

definition loadLocalAction ::
  "nat \<Rightarrow> Env \<Rightarrow> string \<Rightarrow> ScopedActionService \<Rightarrow> (string \<times> Require \<times> string) result option" where
  "loadLocalAction fuel env actionName' s =
     (let rest = (\<lambda>s0. await (getActionDetails env actionName' s0)
                    (\<lambda>d s1. (Inr (detCode d, prepareRequire (detDirPath d) (detLookups d),
                                   detDirPath d), s1)))
      in if BP_EXPERIMENTAL_REQUIRE_BPFS env
         then (case checkActionRequires fuel env actionName' s of
                 None \<Rightarrow> None
               | Some r \<Rightarrow> Some (await r (\<lambda>_ s0. rest s0)))
         else Some (rest s))"

definition runWithoutVm ::
  "Env \<Rightarrow> string \<Rightarrow> Require \<Rightarrow> IncomingEvent \<Rightarrow> string \<Rightarrow> ScopedActionService \<Rightarrow> IncomingEvent result" where
  "runWithoutVm env script req ev args s =
     (callFunction env script req ev args, s\<lparr>effects := effects s @ [RunWithoutVm script ev args]\<rparr>)"

text \<open>The \<^verbatim>\<open>NodeVM\<close> is built with \<^verbatim>\<open>timeout: 5000\<close>.\<close>

definition runInVm ::
  "Env \<Rightarrow> string \<Rightarrow> string \<Rightarrow> Require \<Rightarrow> IncomingEvent \<Rightarrow> string \<Rightarrow> ScopedActionService
     \<Rightarrow> IncomingEvent result" where
  "runInVm env script dirPath req ev args s =
     (vmRunner env 5000 script dirPath req ev args,
      s\<lparr>effects := effects s @ [RunInVm script dirPath 5000 ev args]\<rparr>)"

definition runTrustedCode ::
  "nat \<Rightarrow> Env \<Rightarrow> string \<Rightarrow> string \<Rightarrow> IncomingEvent \<Rightarrow> ScopedActionService
     \<Rightarrow> IncomingEvent result option" where
  "runTrustedCode fuel env actionName' args ev s =
     (case loadLocalAction fuel env actionName' s of
        None \<Rightarrow> None
      | Some r \<Rightarrow>
          Some (await r (\<lambda>loaded s1.
                  case loaded of (script, req, dirPath) \<Rightarrow> runWithoutVm env script req ev args s1)))"

definition runLegacyAction ::
  "nat \<Rightarrow> Env \<Rightarrow> string \<Rightarrow> string \<Rightarrow> IncomingEvent \<Rightarrow> ScopedActionService
     \<Rightarrow> IncomingEvent result option" where
  "runLegacyAction fuel env actionName' args ev s =
     (case loadLocalAction fuel env actionName' s of
        None \<Rightarrow> None
      | Some r \<Rightarrow>
          Some (await r (\<lambda>loaded s1.
                  case loaded of (script, req, dirPath) \<Rightarrow>
                    runInVm env script dirPath req ev args s1)))"

section \<open>Remote delegation\<close>

definition getWorkspaceIdForBot :: "Env \<Rightarrow> string \<Rightarrow> ScopedActionService \<Rightarrow> string result" where
  "getWorkspaceIdForBot env theBot s =
     (case map_of (botsWorkspaceIdsCache s) theBot of
        Some workspaceId \<Rightarrow> (Inr workspaceId, s)
      | None \<Rightarrow>
          (case getBotWorkspaceId env theBot of
             Inl e \<Rightarrow> (Inl (ErrorObject e), s)
           | Inr workspaceId \<Rightarrow>
               (Inr workspaceId,
                s\<lparr>botsWorkspaceIdsCache := AList.update theBot workspaceId (botsWorkspaceIdsCache s)\<rparr>)))"

definition createTask :: "Task \<Rightarrow> ScopedActionService \<Rightarrow> ScopedActionService" where
  "createTask t s = s\<lparr>tasks := tasks s @ [t]\<rparr>"

text \<open>\<^verbatim>\<open>`axios:${e.code}`\<close>: a missing code prints as \<^verbatim>\<open>undefined\<close>.\<close>

definition axiosFailureReason :: "JsError \<Rightarrow> string" where
  "axiosFailureReason e = ''axios:'' @ (case errCode e of Some c \<Rightarrow> c | None \<Rightarrow> ''undefined'')"

definition taskInfo :: "Env \<Rightarrow> RunActionProps \<Rightarrow> ActionServer \<Rightarrow> TaskStatus \<Rightarrow> string option \<Rightarrow> Task" where
  "taskInfo env props srv st reason =
     \<lparr>taskEventId = eventId (incomingEvent props), taskActionName = actionName props,
      taskActionArgs = actionArgs props, taskActionServerId = serverId srv,
      startedAt = dateStarted env, endedAt = dateEnded env, status = st, failureReason = reason\<rparr>"

definition actionRunRequest :: "Env \<Rightarrow> RunActionProps \<Rightarrow> ActionServer \<Rightarrow> string \<Rightarrow> AxiosRequest" where
  "actionRunRequest env props srv workspaceId =
     \<lparr>reqUrl = baseUrl srv @ ''/action/run'', reqTimeout = 5000,
      reqToken = signToken env (botId (incomingEvent props)) workspaceId,
      reqBotId = botId (incomingEvent props),
      reqActionName = actionName props,
      reqIncomingEvent = incomingEvent props,
      reqActionArgs = actionArgs props\<rparr>"

text \<open>A response without \<^verbatim>\<open>data.incomingEvent\<close> makes the read of \<^verbatim>\<open>.state\<close> throw a
  \<^verbatim>\<open>TypeError\<close>, after the task has been created.\<close>

definition runInActionServer ::
  "Env \<Rightarrow> RunActionProps \<Rightarrow> ActionServer \<Rightarrow> ScopedActionService \<Rightarrow> IncomingEvent result" where
  "runInActionServer env props srv s =
     await (getWorkspaceIdForBot env (botId (incomingEvent props)) s)
       (\<lambda>workspaceId s1.
          let request = actionRunRequest env props srv workspaceId;
              s2 = s1\<lparr>effects := effects s1 @ [HttpPost request]\<rparr>
          in case axios env request of
               Inl e \<Rightarrow>
                 (Inl (ErrorObject e),
                  if isAxiosError e
                  then createTask (taskInfo env props srv failed (Some (axiosFailureReason e))) s2
                  else s2)
             | Inr response \<Rightarrow>
                 (let s3 = createTask (taskInfo env props srv completed None) s2
                  in case respEvent response of
                       None \<Rightarrow>
                         (Inl (ErrorObject
                                 (typeError ''Cannot read property 'state' of undefined'')), s3)
                     | Some responseIncomingEvent \<Rightarrow>
                         (Inr (responseIncomingEvent
                                 \<lparr>state := (state responseIncomingEvent)
                                    \<lparr>temp := AList.update ''responseStatusCode''
                                               (JNum (respStatus response))
                                               (temp (state responseIncomingEvent))\<rparr>\<rparr>),
                          s3)))"

section \<open>The execution router\<close>

definition debugForBot :: "string \<Rightarrow> string \<Rightarrow> ScopedActionService \<Rightarrow> ScopedActionService" where
  "debugForBot theBot msg s = s\<lparr>debugLog := debugLog s @ [(theBot, msg)]\<rparr>"

text \<open>
  The \<^verbatim>\<open>try\<close> block of \<^verbatim>\<open>runAction\<close> up to the last \<^verbatim>\<open>debug\<close> call. It yields two
  events: the value of the local variable \<^verbatim>\<open>incomingEvent\<close>, and the content of the object
  that the caller passed as \<^verbatim>\<open>props.incomingEvent\<close>. A script works on the caller's object,
  so both are the event it leaves; the remote branch assigns the local variable only.
\<close>

definition runActionTry ::
  "nat \<Rightarrow> Env \<Rightarrow> RunActionProps \<Rightarrow> ScopedActionService
     \<Rightarrow> (IncomingEvent \<times> IncomingEvent) result option" where
  "runActionTry fuel env props s =
     (case actionServer props of
        Some srv \<Rightarrow>
          Some (await (runInActionServer env props srv s)
                  (\<lambda>ev s1. (Inr (ev, incomingEvent props), s1)))
      | None \<Rightarrow>
          (case isTrustedAction env (actionName props) s of
             (Inl e, s1) \<Rightarrow> Some (Inl e, s1)
           | (Inr trusted, s1) \<Rightarrow>
               (case (if trusted
                      then runTrustedCode fuel env (actionName props) (actionArgs props)
                             (incomingEvent props) s1
                      else runLegacyAction fuel env (actionName props) (actionArgs props)
                             (incomingEvent props) s1) of
                  None \<Rightarrow> None
                | Some r \<Rightarrow> Some (await r (\<lambda>ev s2. (Inr (ev, ev), s2))))))"

text \<open>
  The catch block of \<^verbatim>\<open>runAction\<close>: the error is logged, then
  \<^verbatim>\<open>throw new ActionExecutionError(err.message, actionName, err.stack)\<close> is evaluated.
  The reads of \<^verbatim>\<open>.message\<close> and \<^verbatim>\<open>.stack\<close> yield \<^verbatim>\<open>undefined\<close> on a primitive
  and throw a \<^verbatim>\<open>TypeError\<close> on \<^verbatim>\<open>null\<close> and \<^verbatim>\<open>undefined\<close>; that error leaves
  \<^verbatim>\<open>runAction\<close> as it is.
\<close>

definition newActionExecutionError :: "thrownValue \<Rightarrow> string \<Rightarrow> thrown" where
  "newActionExecutionError err actionName' =
     (case err of
        ErrorObject e \<Rightarrow> ActionExecutionError (Some (message e)) actionName' (Some (stack e))
      | PrimitiveValue v \<Rightarrow> ActionExecutionError None actionName' None
      | NullValue \<Rightarrow> Thrown (typeError ''Cannot read property 'message' of null'')
      | UndefinedValue \<Rightarrow> Thrown (typeError ''Cannot read property 'message' of undefined''))"

definition catchBlock ::
  "string \<Rightarrow> thrownValue \<Rightarrow> ScopedActionService \<Rightarrow> (thrown + IncomingEvent) \<times> ScopedActionService" where
  "catchBlock actionName' err s =
     (Inl (newActionExecutionError err actionName'),
      s\<lparr>errorLog := errorLog s @
           [''An error occurred while executing the action \"'' @ actionName']\<rparr>)"

text \<open>
  \<^verbatim>\<open>runAction\<close> returns \<^verbatim>\<open>Promise<void>\<close>. \<open>Inr\<close> carries what the caller can observe once
  the promise has resolved: the content of the event object it passed in.
  \<^verbatim>\<open>process.ASSERT_LICENSED()\<close> runs before the \<^verbatim>\<open>try\<close>.
\<close>


definition runAction ::
  "nat \<Rightarrow> Env \<Rightarrow> RunActionProps \<Rightarrow> ScopedActionService
     \<Rightarrow> ((thrown + IncomingEvent) \<times> ScopedActionService) option" where
  "runAction fuel env props s =
     (case ASSERT_LICENSED env of
        Some e \<Rightarrow> Some (Inl (Thrown e), s)
      | None \<Rightarrow>
          (case runActionTry fuel env props
                  (debugForBot (botId (incomingEvent props)) ''run action'' s) of
             None \<Rightarrow> None
           | Some (Inr (localEvent, callerEvent), s1) \<Rightarrow>
               Some (Inr callerEvent, debugForBot (botId localEvent) ''done running'' s1)
           | Some (Inl err, s1) \<Rightarrow> Some (catchBlock (actionName props) err s1)))"

section \<open>Cache invalidation\<close>

definition DEBOUNCE_DELAY :: nat where
  "DEBOUNCE_DELAY = 2000"

definition clearCache :: "ScopedActionService \<Rightarrow> ScopedActionService" where
  "clearCache s =
     s\<lparr>scriptsCache := [], globalActionsCache := None, localActionsCache := None,
       validScripts := [], botsWorkspaceIdsCache := []\<rparr>"

text \<open>
  Modelled from the spec: \<^verbatim>\<open>_.debounce(f, wait, { leading: true, trailing: false })\<close> of
  lodash, which is not part of the repository. In the spec's words: on the first event a
  suppression window of \<open>wait\<close> milliseconds starts and the function fires at once; any event
  inside the window is dropped; a new window opens only after the current one has elapsed;
  nothing fires at the end of a window. The state of the debouncer is the start of the
  current window; times are milliseconds. The result says whether the function fires.
\<close>

definition debounce :: "nat \<Rightarrow> nat \<Rightarrow> nat option \<Rightarrow> bool \<times> nat option" where
  "debounce wait now window =
     (case window of
        None \<Rightarrow> (True, Some now)
      | Some start \<Rightarrow> if now < start + wait then (False, Some start) else (True, Some now))"

text \<open>The listener of a scoped service: the service, the state of its \<^verbatim>\<open>clearDebounce\<close>,
  and the number of calls of \<^verbatim>\<open>_clearCache\<close> so far.\<close>

record Listener =
  service :: ScopedActionService
  window :: "nat option"
  clears :: nat

definition onInvalidation :: "nat \<Rightarrow> string \<Rightarrow> Listener \<Rightarrow> Listener" where
  "onInvalidation now key l =
     (if indexOf (toLowerCase key) ''/actions'' > - 1
      then (case debounce DEBOUNCE_DELAY now (window l) of
              (fire, w) \<Rightarrow>
                if fire
                then l\<lparr>service := clearCache (service l), window := w, clears := clears l + 1\<rparr>
                else l\<lparr>window := w\<rparr>)
      else l)"

text \<open>A sequence of invalidation events, each with the time at which it is emitted.\<close>

fun onInvalidations :: "(nat \<times> string) list \<Rightarrow> Listener \<Rightarrow> Listener" where
  "onInvalidations [] l = l"
| "onInvalidations ((now, key) # events) l = onInvalidations events (onInvalidation now key l)"

definition newService :: ScopedActionService where
  "newService =
     \<lparr>globalActionsCache = None, localActionsCache = None, scriptsCache = [], validScripts = [],
      botsWorkspaceIdsCache = [], tasks = [], debugLog = [], errorLog = [], effects = []\<rparr>"

section \<open>The states of a service\<close>

text \<open>What a listing of a scope yields, as names and locations: one action for every enabled
  file, in the order of the Content Store's listing. A catalog cache agrees with the Content
  Store when it is empty or holds these actions.\<close>

definition listedNames :: "Env \<Rightarrow> ActionLocation \<Rightarrow> (string \<times> ActionLocation) list" where
  "listedNames env loc =
     map (\<lambda>f. (replaceJs f, loc))
       (filter (enabled env) (case loc of Global \<Rightarrow> globalListing env | Local \<Rightarrow> localListing env))"

definition cachesAgree :: "Env \<Rightarrow> ScopedActionService \<Rightarrow> bool" where
  "cachesAgree env s =
     ((case globalActionsCache s of
         None \<Rightarrow> True
       | Some g \<Rightarrow> map (\<lambda>a. (name a, location a)) g = listedNames env Global) \<and>
      (case localActionsCache s of
         None \<Rightarrow> True
       | Some l \<Rightarrow> map (\<lambda>a. (name a, location a)) l = listedNames env Local))"

text \<open>
  The states that a scoped service reaches from its construction through the calls of its
  public methods that return and through cache clears, while its collaborators stay the same.
\<close>

inductive reachable :: "Env \<Rightarrow> ScopedActionService \<Rightarrow> bool" for env :: Env where
  constructed: "reachable env newService"
| listed: "reachable env s \<Longrightarrow> reachable env (snd (listActions env s))"
| listedLocal: "reachable env s \<Longrightarrow> reachable env (snd (listLocalActions env s))"
| asked: "reachable env s \<Longrightarrow> reachable env (snd (hasAction env n s))"
| loaded: "reachable env s \<Longrightarrow> loadLocalAction fuel env n s = Some (r, s') \<Longrightarrow> reachable env s'"
| ran: "reachable env s \<Longrightarrow> runAction fuel env props s = Some (x, s') \<Longrightarrow> reachable env s'"
| cleared: "reachable env s \<Longrightarrow> reachable env (clearCache s)"

section \<open>Example installations\<close>

text \<open>Concrete collaborators, used to run the definitions: a bot with three global and
  three bot-level action files, one of the global files disabled, and one name present in both
  scopes.\<close>

definition exampleEvent :: IncomingEvent where
  "exampleEvent =
     \<lparr>eventId = ''evt-1'', botId = ''bot1'', state = \<lparr>user = [], temp = [], session = []\<rparr>\<rparr>"

definition remoteEvent :: IncomingEvent where
  "remoteEvent =
     \<lparr>eventId = ''evt-1'', botId = ''remote-bot'',
      state = \<lparr>user = [], temp = [(''answer'', JNum 42)], session = []\<rparr>\<rparr>"

definition exampleEnv :: Env where
  "exampleEnv =
     \<lparr>thisBotId = ''bot1'',
      enabled = (\<lambda>f. \<not> startsWith f ''.''),
      extractMetadata = (\<lambda>script. ''meta''),
      extractRequiredFiles = (\<lambda>script. []),
      getBaseLookupPaths = (\<lambda>dirPath. [dirPath]),
      prepareRequireTester = (\<lambda>parent lookups f. False),
      requireFromString = (\<lambda>script f parent req. Inr False),
      globalListing = [''nlu/detect-intent.js'', ''.disabled.js'', ''custom/thing.js''],
      localListing = [''nlu/detect-intent.js'', ''builtin/custom.js'', ''hello.js''],
      globalReadFile = (\<lambda>f. Inr (''global:'' @ f)),
      localReadFile = (\<lambda>f. Inr (''local:'' @ f)),
      getBotWorkspaceId = (\<lambda>b. Inr ''default''),
      signToken = (\<lambda>b w. ''token''),
      axios = (\<lambda>request. Inr \<lparr>respStatus = 200, respEvent = Some remoteEvent\<rparr>),
      callFunction = (\<lambda>script req ev args.
         Inr (ev\<lparr>state := (state ev)\<lparr>temp := AList.update ''x'' (JNum 1) (temp (state ev))\<rparr>\<rparr>)),
      vmRunner = (\<lambda>timeout script dirPath req ev args.
         Inr (ev\<lparr>state := (state ev)\<lparr>temp := AList.update ''y'' (JNum 2) (temp (state ev))\<rparr>\<rparr>)),
      pathResolveJoin = (\<lambda>a b. a @ b),
      PROJECT_LOCATION = ''/bp'',
      BP_EXPERIMENTAL_REQUIRE_BPFS = False,
      ASSERT_LICENSED = None,
      dateStarted = 0,
      dateEnded = 1\<rparr>"

definition exampleServer :: ActionServer where
  "exampleServer = \<lparr>serverId = ''srv-1'', baseUrl = ''http://actions.local''\<rparr>"

definition exampleProps :: "string \<Rightarrow> ActionServer option \<Rightarrow> RunActionProps" where
  "exampleProps n srv =
     \<lparr>actionName = n, actionServer = srv, incomingEvent = exampleEvent, actionArgs = ''args''\<rparr>"

text \<open>Failures of the collaborators: a connection that times out, a request that
  \<^verbatim>\<open>axios\<close> rejects with an error of another kind, a server that answers 500 without an
  event, and a script that the sandbox stops after its timeout.\<close>

definition timeoutError :: JsError where
  "timeoutError =
     \<lparr>message = ''timeout of 5000ms exceeded'', stack = ''Error: timeout of 5000ms exceeded'',
      isAxiosError = True, errCode = Some ''ECONNABORTED''\<rparr>"

definition circularError :: JsError where
  "circularError =
     \<lparr>message = ''Converting circular structure to JSON'',
      stack = ''TypeError: Converting circular structure to JSON'',
      isAxiosError = False, errCode = None\<rparr>"


definition timeoutEnv :: Env where
  "timeoutEnv = exampleEnv\<lparr>axios := (\<lambda>request. Inl timeoutError)\<rparr>"

definition circularEnv :: Env where
  "circularEnv = exampleEnv\<lparr>axios := (\<lambda>request. Inl circularError)\<rparr>"

definition serverErrorEnv :: Env where
  "serverErrorEnv = exampleEnv\<lparr>axios := (\<lambda>request. Inr \<lparr>respStatus = 500, respEvent = None\<rparr>)\<rparr>"








text \<open>Strict-require mode, with a bot-level action \<^verbatim>\<open>hello\<close> whose script requires
  \<^verbatim>\<open>hello\<close> itself.\<close>

definition cyclicEnv :: Env where
  "cyclicEnv =
     exampleEnv\<lparr>BP_EXPERIMENTAL_REQUIRE_BPFS := True,
                extractRequiredFiles :=
                  (\<lambda>script. if script = ''local:hello.js'' then [''hello''] else [])\<rparr>"

text \<open>A global and a bot-level action of the same name \<^verbatim>\<open>x_true_local\<close>, beside a
  bot-level action \<^verbatim>\<open>x\<close>.\<close>

definition collidingEnv :: Env where
  "collidingEnv =
     exampleEnv\<lparr>globalListing := [''x_true_local.js''],
                localListing := [''x.js'', ''x_true_local.js'']\<rparr>"

text \<open>A listener that has seen no event, and a key of the cache bus.\<close>

definition newListener :: Listener where
  "newListener = \<lparr>service = newService, window = None, clears = 0\<rparr>"

definition actionsKey :: string where
  "actionsKey = ''object::data/bots/bot1/Actions/hello.js''"

text \<open>The definition and the details of \<^verbatim>\<open>hello\<close> in the example installations, and the
  states of the service in which \<^verbatim>\<open>hello\<close> is listed, its script is not cached under its
  name and it has not been validated.\<close>

definition helloDefinition :: ActionDefinition where
  "helloDefinition =
     \<lparr>name = ''hello'', isRemote = False, location = Local, legacy = True,
      metadata = Some ''meta''\<rparr>"

definition helloDetails :: ActionDetails where
  "helloDetails =
     \<lparr>detCode = ''local:hello.js'', detDirPath = ''/bp/data/bots/bot1/actions/hello.js'',
      detLookups = [''/bp/data/bots/bot1/actions/hello.js''], detAction = helloDefinition\<rparr>"

definition helloListed :: "ScopedActionService \<Rightarrow> bool" where
  "helloListed s =
     ((case globalActionsCache s of
         None \<Rightarrow> False
       | Some g \<Rightarrow>
           (case localActionsCache s of
              None \<Rightarrow> False
            | Some l \<Rightarrow> find (\<lambda>x. name x = ''hello'') (g @ l) = Some helloDefinition)) \<and>
      map_of (scriptsCache s) ''hello'' = None \<and>
      \<not> isValidScript s ''hello'')"

section \<open>Properties\<close>

subsection \<open>Sequencing\<close>

lemma await_Inr_iff:
  "await r k = (Inr y, s') \<longleftrightarrow> (\<exists>x s1. r = (Inr x, s1) \<and> k x s1 = (Inr y, s'))"
  by (auto simp: await_def split: prod.splits sum.splits)

lemma await_agree:
  assumes "cachesAgree env (snd r)"
    and "\<And>x s1. cachesAgree env s1 \<Longrightarrow> cachesAgree env (snd (k x s1))"
  shows "cachesAgree env (snd (await r k))"
  using assms by (cases r) (auto simp: await_def split: sum.splits)

subsection \<open>The catalog\<close>

lemma collect_map:
  assumes "\<And>x y. f x = Inr y \<Longrightarrow> g y = h x"
  shows "collect (map f xs) = Inr ys \<Longrightarrow> map g ys = map h xs"
proof (induction xs arbitrary: ys)
  case Nil
  then show ?case by simp
next
  case (Cons x xs)
  show ?case
  proof (cases "f x")
    case (Inl e)
    with Cons.prems show ?thesis by simp
  next
    case (Inr y)
    with Cons.prems obtain zs where z: "collect (map f xs) = Inr zs" and ys: "ys = y # zs"
      by (auto split: sum.splits)
    from Cons.IH [OF z] assms [OF Inr] ys show ?thesis by simp
  qed
qed

lemma newActionDefinition_fields:
  "name (newActionDefinition file loc) = replaceJs file"
  "location (newActionDefinition file loc) = loc"
  "legacy (newActionDefinition file loc) = (\<not> includesStr file ''.http.js'')"
  by (simp_all add: newActionDefinition_def)

lemma withMetadata_fields:
  "name (withMetadata env a script) = name a"
  "location (withMetadata env a script) = location a"
  "legacy (withMetadata env a script) = legacy a"
  by (simp_all add: withMetadata_def)

lemma getActionDefinitions_fields:
  assumes "getActionDefinitions env loc files s = (Inr actions, s')"
  shows "map (\<lambda>a. (name a, location a)) actions = map (\<lambda>f. (replaceJs f, loc)) files"
proof -
  let ?settled = "\<lambda>a. case map_of (scriptsCache s) (name a) of
                         Some cached \<Rightarrow> Inr (withMetadata env a cached)
                       | None \<Rightarrow>
                           (case readFile env (location a) (scriptFile a) of
                              Inl e \<Rightarrow> Inl (ErrorObject e)
                            | Inr script \<Rightarrow> Inr (withMetadata env a script))"
  from assms have c: "collect (map ?settled (map (\<lambda>file. newActionDefinition file loc) files)) = Inr actions"
    by (simp add: getActionDefinitions_def Let_def)
  have "map (\<lambda>a. (name a, location a)) actions =
        map (\<lambda>a. (name a, location a)) (map (\<lambda>file. newActionDefinition file loc) files)"
    by (rule collect_map [OF _ c]) (auto simp: withMetadata_fields split: option.splits sum.splits)
  then show ?thesis by (simp add: newActionDefinition_fields comp_def)
qed

text \<open>For a single file the listing is the method \<open>getActionDefinition\<close>.\<close>

lemma getActionDefinitions_single:
  "getActionDefinitions env loc [file] s =
     await (getActionDefinition env file loc True s) (\<lambda>a s1. (Inr [a], s1))"
proof (cases "map_of (scriptsCache s) (name (newActionDefinition file loc))")
  case None
  then show ?thesis
    by (cases "readFile env (location (newActionDefinition file loc)) (scriptFile (newActionDefinition file loc))")
       (simp_all add: getActionDefinitions_def getActionDefinition_def getActionScript_def
        readFileAsString_def fromLibrary_def await_def Let_def)
next
  case (Some cached)
  then show ?thesis
    by (simp add: getActionDefinitions_def getActionDefinition_def getActionScript_def await_def Let_def)
qed

lemma getActionDefinitions_caches:
  "globalActionsCache (snd (getActionDefinitions env loc files s)) = globalActionsCache s \<and>
   localActionsCache (snd (getActionDefinitions env loc files s)) = localActionsCache s"
  by (simp add: getActionDefinitions_def Let_def)

lemma getActionScript_caches:
  "globalActionsCache (snd (getActionScript env a s)) = globalActionsCache s \<and>
   localActionsCache (snd (getActionScript env a s)) = localActionsCache s"
  by (auto simp: getActionScript_def await_def readFileAsString_def split: option.splits sum.splits)

lemma cachesAgree_same:
  "cachesAgree env s \<Longrightarrow> globalActionsCache s' = globalActionsCache s \<Longrightarrow>
     localActionsCache s' = localActionsCache s \<Longrightarrow> cachesAgree env s'"
  by (simp add: cachesAgree_def)

lemma getActionScript_agree:
  "cachesAgree env s \<Longrightarrow> cachesAgree env (snd (getActionScript env a s))"
  using getActionScript_caches [of env a s] by (auto intro: cachesAgree_same)

lemma listGlobalActions_agree:
  assumes "cachesAgree env s"
  shows "cachesAgree env (snd (listGlobalActions env s))"
proof (cases "globalActionsCache s")
  case (Some g)
  with assms show ?thesis by (simp add: listGlobalActions_def)
next
  case None
  obtain r s1 where d: "getActionDefinitions env Global (filter (enabled env) (globalListing env)) s = (r, s1)"
    by (cases "getActionDefinitions env Global (filter (enabled env) (globalListing env)) s")
  from getActionDefinitions_caches [of env Global "filter (enabled env) (globalListing env)" s] d
  have c: "globalActionsCache s1 = globalActionsCache s" "localActionsCache s1 = localActionsCache s"
    by simp_all
  show ?thesis
  proof (cases r)
    case (Inl e)
    have r: "listGlobalActions env s = (Inl e, s1)"
      using None d Inl by (simp add: listGlobalActions_def await_def)
    from c assms show ?thesis
      unfolding r by (simp add: cachesAgree_def)
  next
    case (Inr actions)
    from d Inr have d': "getActionDefinitions env Global (filter (enabled env) (globalListing env)) s = (Inr actions, s1)"
      by simp
    have n: "map (\<lambda>a. (name a, location a)) actions = listedNames env Global"
      using getActionDefinitions_fields [OF d'] by (simp add: listedNames_def)
    have r: "listGlobalActions env s = (Inr actions, s1\<lparr>globalActionsCache := Some actions\<rparr>)"
      using None d' by (simp add: listGlobalActions_def await_def)
    from n c assms None show ?thesis
      unfolding r by (simp add: cachesAgree_def)
  qed
qed

lemma listLocalActions_agree:
  assumes "cachesAgree env s"
  shows "cachesAgree env (snd (listLocalActions env s))"
proof (cases "localActionsCache s")
  case (Some g)
  with assms show ?thesis by (simp add: listLocalActions_def)
next
  case None
  obtain r s1 where d: "getActionDefinitions env Local (filter (enabled env) (localListing env)) s = (r, s1)"
    by (cases "getActionDefinitions env Local (filter (enabled env) (localListing env)) s")
  from getActionDefinitions_caches [of env Local "filter (enabled env) (localListing env)" s] d
  have c: "globalActionsCache s1 = globalActionsCache s" "localActionsCache s1 = localActionsCache s"
    by simp_all
  show ?thesis
  proof (cases r)
    case (Inl e)
    have r: "listLocalActions env s = (Inl e, s1)"
      using None d Inl by (simp add: listLocalActions_def await_def)
    from c assms show ?thesis
      unfolding r by (simp add: cachesAgree_def)
  next
    case (Inr actions)
    from d Inr have d': "getActionDefinitions env Local (filter (enabled env) (localListing env)) s = (Inr actions, s1)"
      by simp
    have n: "map (\<lambda>a. (name a, location a)) actions = listedNames env Local"
      using getActionDefinitions_fields [OF d'] by (simp add: listedNames_def)
    have r: "listLocalActions env s = (Inr actions, s1\<lparr>localActionsCache := Some actions\<rparr>)"
      using None d' by (simp add: listLocalActions_def await_def)
    from n c assms None show ?thesis
      unfolding r by (simp add: cachesAgree_def)
  qed
qed

lemma listActions_agree:
  assumes "cachesAgree env s"
  shows "cachesAgree env (snd (listActions env s))"
  unfolding listActions_def
proof (rule await_agree)
  show "cachesAgree env (snd (listGlobalActions env s))"
    by (rule listGlobalActions_agree [OF assms])
next
  fix g s1 assume a: "cachesAgree env s1"
  show "cachesAgree env (snd (await (listLocalActions env s1) (\<lambda>localActions s2. (Inr (g @ localActions), s2))))"
    by (rule await_agree [OF listLocalActions_agree [OF a]]) simp
qed

lemma hasAction_agree:
  "cachesAgree env s \<Longrightarrow> cachesAgree env (snd (hasAction env n s))"
  unfolding hasAction_def by (rule await_agree [OF listActions_agree]) simp_all

lemma findAction_agree:
  "cachesAgree env s \<Longrightarrow> cachesAgree env (snd (findAction env n s))"
  unfolding findAction_def
  by (rule await_agree [OF listActions_agree]) (simp_all split: option.splits)

lemma getActionDetails_agree:
  assumes "cachesAgree env s"
  shows "cachesAgree env (snd (getActionDetails env n s))"
  unfolding getActionDetails_def
proof (rule await_agree [OF findAction_agree [OF assms]])
  fix action s1 assume a: "cachesAgree env s1"
  show "cachesAgree env (snd (await (getActionScript env action s1)
          (\<lambda>script s2.
             let botFolder = (if location action = Global then ''global''
                              else ''bots/'' @ thisBotId env);
                 dirPath = pathResolveJoin env (PROJECT_LOCATION env)
                             (''/data/'' @ botFolder @ ''/actions/'' @ n @ ''.js'')
             in (Inr \<lparr>detCode = script, detDirPath = dirPath,
                       detLookups = getBaseLookupPaths env dirPath, detAction = action\<rparr>, s2))))"
    by (rule await_agree [OF getActionScript_agree [OF a]]) (simp add: Let_def)
qed

lemma isTrustedAction_agree:
  assumes "cachesAgree env s"
  shows "cachesAgree env (snd (isTrustedAction env n s))"
  unfolding isTrustedAction_def listTrustedActions_def
  by (rule await_agree [OF await_agree [OF listGlobalActions_agree [OF assms]]]) simp_all

text \<open>What a successful listing returns when the caches agree with the Content Store.\<close>

lemma listGlobalActions_names:
  assumes "cachesAgree env s" and "listGlobalActions env s = (Inr g, s1)"
  shows "map (\<lambda>a. (name a, location a)) g = listedNames env Global"
proof -
  from listGlobalActions_agree [OF assms(1)] assms(2) have a: "cachesAgree env s1" by simp
  from assms(2) have "globalActionsCache s1 = Some g"
    by (auto simp: listGlobalActions_def await_Inr_iff split: option.splits)
  with a show ?thesis by (simp add: cachesAgree_def)
qed

lemma listLocalActions_names:
  assumes "cachesAgree env s" and "listLocalActions env s = (Inr l, s1)"
  shows "map (\<lambda>a. (name a, location a)) l = listedNames env Local"
proof -
  from listLocalActions_agree [OF assms(1)] assms(2) have a: "cachesAgree env s1" by simp
  from assms(2) have "localActionsCache s1 = Some l"
    by (auto simp: listLocalActions_def await_Inr_iff split: option.splits)
  with a show ?thesis by (simp add: cachesAgree_def)
qed

lemma listActions_names:
  assumes "cachesAgree env s" and "listActions env s = (Inr actions, s')"
  shows "map (\<lambda>a. (name a, location a)) actions = listedNames env Global @ listedNames env Local"
proof -
  from assms(2) obtain g s1 l where
    g: "listGlobalActions env s = (Inr g, s1)" and
    l: "listLocalActions env s1 = (Inr l, s')" and
    eq: "actions = g @ l"
    by (auto simp: listActions_def await_Inr_iff)
  from listGlobalActions_agree [OF assms(1)] g have a1: "cachesAgree env s1" by simp
  from listGlobalActions_names [OF assms(1) g] listLocalActions_names [OF a1 l] eq
  show ?thesis by simp
qed

subsection \<open>The catalog caches agree with the Content Store in every state\<close>

lemma agree_effects [simp]: "cachesAgree env (s\<lparr>effects := x\<rparr>) = cachesAgree env s"
  and agree_errorLog [simp]: "cachesAgree env (s\<lparr>errorLog := y\<rparr>) = cachesAgree env s"
  and agree_debugLog [simp]: "cachesAgree env (s\<lparr>debugLog := z\<rparr>) = cachesAgree env s"
  and agree_tasks [simp]: "cachesAgree env (s\<lparr>tasks := t\<rparr>) = cachesAgree env s"
  and agree_validScripts [simp]: "cachesAgree env (s\<lparr>validScripts := v\<rparr>) = cachesAgree env s"
  and agree_workspaces [simp]: "cachesAgree env (s\<lparr>botsWorkspaceIdsCache := w\<rparr>) = cachesAgree env s"
  by (simp_all add: cachesAgree_def)

lemma loadRequiredFile_agree:
  assumes "cachesAgree env s"
  shows "cachesAgree env (snd (loadRequiredFile env file parent s))"
  unfolding loadRequiredFile_def
  by (rule await_agree [OF getActionDetails_agree [OF assms]])
     (simp add: Let_def split: sum.splits)

lemma requiredFilesLoop_agree:
  assumes recur: "\<And>f s r s'. cachesAgree env s \<Longrightarrow> recur f s = Some (r, s') \<Longrightarrow> cachesAgree env s'"
  shows "cachesAgree env s \<Longrightarrow> requiredFilesLoop recur env a parent files s = Some (b, s') \<Longrightarrow>
         cachesAgree env s'"
proof (induction files arbitrary: s)
  case Nil
  then show ?case by simp
next
  case (Cons f fs)
  show ?case
  proof (cases "prepareRequireTester env (detDirPath parent) (detLookups parent) f")
    case True
    with Cons show ?thesis by simp
  next
    case False
    with Cons.prems obtain r s1 where x: "recur f s = Some (r, s1)"
      by (auto split: option.splits)
    from recur [OF Cons.prems(1) x] have a1: "cachesAgree env s1" .
    obtain r2 s2 where l: "await (r, s1) (\<lambda>_ s1. loadRequiredFile env f (detDirPath parent) s1) = (r2, s2)"
      by (cases "await (r, s1) (\<lambda>_ s1. loadRequiredFile env f (detDirPath parent) s1)")
    have "cachesAgree env (snd (await (r, s1) (\<lambda>_ s1. loadRequiredFile env f (detDirPath parent) s1)))"
      by (rule await_agree) (simp_all add: a1 loadRequiredFile_agree)
    with l have a2: "cachesAgree env s2" by simp
    show ?thesis
    proof (cases r2)
      case (Inl err)
      with Cons.prems(2) False x l a2 show ?thesis by auto
    next
      case (Inr u)
      with Cons.prems(2) False x l have "requiredFilesLoop recur env a parent fs s2 = Some (b, s')"
        by simp
      from Cons.IH [OF a2 this] show ?thesis .
    qed
  qed
qed

lemma markValidScript_agree:
  "cachesAgree env (markValidScript k s) = cachesAgree env s"
  by (simp add: markValidScript_def)

lemma checkActionRequires_agree:
  "cachesAgree env s \<Longrightarrow> checkActionRequires fuel env a s = Some (r, s') \<Longrightarrow> cachesAgree env s'"
proof (induction fuel arbitrary: a s r s')
  case 0
  then show ?case by simp
next
  case (Suc fuel)
  show ?case
  proof (cases "isValidScript s a")
    case True
    with Suc.prems show ?thesis by simp
  next
    case False
    obtain d s1 where d: "getActionDetails env a s = (d, s1)"
      by (cases "getActionDetails env a s")
    from getActionDetails_agree [OF Suc.prems(1), of a] d have a1: "cachesAgree env s1" by simp
    show ?thesis
    proof (cases d)
      case (Inl e)
      with Suc.prems(2) False d a1 show ?thesis by simp
    next
      case (Inr parent)
      with Suc.prems(2) False d obtain b s2 where
        l: "requiredFilesLoop (checkActionRequires fuel env) env a parent
              (extractRequiredFiles env (detCode parent)) s1 = Some (b, s2)"
        by (auto split: option.splits)
      have a2: "cachesAgree env s2"
        by (rule requiredFilesLoop_agree [OF _ a1 l]) (rule Suc.IH)
      from Suc.prems(2) False d Inr l a2 show ?thesis
        by (auto simp: markValidScript_agree split: if_splits)
    qed
  qed
qed

lemma loadLocalAction_agree:
  assumes "cachesAgree env s" and "loadLocalAction fuel env a s = Some (r, s')"
  shows "cachesAgree env s'"
proof -
  let ?rest = "\<lambda>s0. await (getActionDetails env a s0)
                    (\<lambda>d s1. (Inr (detCode d, prepareRequire (detDirPath d) (detLookups d),
                                   detDirPath d), s1))"
  have rest: "\<And>s0. cachesAgree env s0 \<Longrightarrow> cachesAgree env (snd (?rest s0))"
    by (rule await_agree [OF getActionDetails_agree]) simp_all
  show ?thesis
  proof (cases "BP_EXPERIMENTAL_REQUIRE_BPFS env")
    case False
    with assms(2) have "(r, s') = ?rest s" by (simp add: loadLocalAction_def Let_def)
    with rest [OF assms(1)] show ?thesis by (metis snd_conv)
  next
    case True
    with assms(2) obtain c s1 where c: "checkActionRequires fuel env a s = Some (c, s1)"
      and e: "(r, s') = await (c, s1) (\<lambda>_ s0. ?rest s0)"
      by (auto simp: loadLocalAction_def Let_def split: option.splits)
    from checkActionRequires_agree [OF assms(1) c] have a1: "cachesAgree env s1" .
    have "cachesAgree env (snd (await (c, s1) (\<lambda>_ s0. ?rest s0)))"
      by (rule await_agree) (simp_all add: a1 rest)
    with e show ?thesis by (metis snd_conv)
  qed
qed

lemma runInActionServer_agree:
  assumes "cachesAgree env s"
  shows "cachesAgree env (snd (runInActionServer env props srv s))"
proof -
  have w: "cachesAgree env (snd (getWorkspaceIdForBot env (botId (incomingEvent props)) s))"
    using assms by (auto simp: getWorkspaceIdForBot_def split: option.splits sum.splits)
  show ?thesis
    unfolding runInActionServer_def
    by (rule await_agree [OF w]) (simp add: Let_def createTask_def split: sum.splits option.splits)
qed

lemma runActionTry_agree:
  assumes "cachesAgree env s" and "runActionTry fuel env props s = Some (r, s')"
  shows "cachesAgree env s'"
proof (cases "actionServer props")
  case (Some srv)
  with assms(2) have "(r, s') = await (runInActionServer env props srv s)
                  (\<lambda>ev s1. (Inr (ev, incomingEvent props), s1))"
    by (simp add: runActionTry_def)
  moreover have "cachesAgree env (snd (await (runInActionServer env props srv s)
                  (\<lambda>ev s1. (Inr (ev, incomingEvent props), s1))))"
    by (rule await_agree [OF runInActionServer_agree [OF assms(1)]]) simp
  ultimately show ?thesis by (metis snd_conv)
next
  case None
  obtain t s1 where t: "isTrustedAction env (actionName props) s = (t, s1)"
    by (cases "isTrustedAction env (actionName props) s")
  from isTrustedAction_agree [OF assms(1), of "actionName props"] t have a1: "cachesAgree env s1"
    by simp
  show ?thesis
  proof (cases t)
    case (Inl e)
    with assms(2) None t a1 show ?thesis by (simp add: runActionTry_def)
  next
    case (Inr trusted)
    with assms(2) None t obtain l s2 where
      l: "loadLocalAction fuel env (actionName props) s1 = Some (l, s2)"
      by (auto simp: runActionTry_def runTrustedCode_def runLegacyAction_def
               split: option.splits if_splits)
    from loadLocalAction_agree [OF a1 l] have a2: "cachesAgree env s2" .
    from assms(2) None t Inr l a2 show ?thesis
      by (auto simp: runActionTry_def runTrustedCode_def runLegacyAction_def await_def
                     runWithoutVm_def runInVm_def
               split: option.splits if_splits sum.splits prod.splits)
  qed
qed

lemma runAction_agree:
  assumes "cachesAgree env s" and "runAction fuel env props s = Some (r, s')"
  shows "cachesAgree env s'"
proof (cases "ASSERT_LICENSED env")
  case (Some e)
  with assms show ?thesis by (simp add: runAction_def)
next
  case None
  have a0: "cachesAgree env (debugForBot (botId (incomingEvent props)) ''run action'' s)"
    using assms(1) by (simp add: debugForBot_def)
  from assms(2) None obtain t s1 where
    t: "runActionTry fuel env props (debugForBot (botId (incomingEvent props)) ''run action'' s) = Some (t, s1)"
    by (auto simp: runAction_def split: option.splits)
  from runActionTry_agree [OF a0 t] have a1: "cachesAgree env s1" .
  from assms(2) None t a1 show ?thesis
    by (auto simp: runAction_def catchBlock_def debugForBot_def split: sum.splits prod.splits)
qed

lemma reachable_agree:
  "reachable env s \<Longrightarrow> cachesAgree env s"
proof (induction rule: reachable.induct)
  case constructed
  show ?case by (simp add: cachesAgree_def newService_def)
next
  case (listed s)
  then show ?case by (simp add: listActions_agree)
next
  case (listedLocal s)
  then show ?case by (simp add: listLocalActions_agree)
next
  case (asked s n)
  then show ?case by (simp add: hasAction_agree)
next
  case (loaded s fuel n r s')
  then show ?case by (auto intro: loadLocalAction_agree)
next
  case (ran s fuel props x s')
  then show ?case by (auto intro: runAction_agree)
next
  case (cleared s)
  show ?case by (simp add: cachesAgree_def clearCache_def)
qed

text \<open>
  Claim C8. In every state that the service reaches, whether its catalog caches are empty or
  filled, a listing that returns yields one action for every enabled global file followed by
  one action for every enabled bot-level file, each group in the order of the Content Store's
  listing; a name that occurs in both scopes occurs twice.
\<close>

theorem listActions_global_then_local:
  assumes "reachable env s" and "listActions env s = (Inr actions, s')"
  shows "map (\<lambda>a. (name a, location a)) actions =
           map (\<lambda>f. (replaceJs f, Global)) (filter (enabled env) (globalListing env)) @
           map (\<lambda>f. (replaceJs f, Local)) (filter (enabled env) (localListing env))"
  using listActions_names [OF reachable_agree [OF assms(1)] assms(2)]
  by (simp add: listedNames_def)

theorem listActions_global_then_local_witness:
  "reachable exampleEnv (snd (listActions exampleEnv newService)) \<and>
   globalActionsCache (snd (listActions exampleEnv newService)) \<noteq> None \<and>
   localActionsCache (snd (listActions exampleEnv newService)) \<noteq> None \<and>
   (\<exists>actions s'. listActions exampleEnv (snd (listActions exampleEnv newService)) = (Inr actions, s') \<and>
      map (\<lambda>a. (name a, location a)) actions =
        [(''nlu/detect-intent'', Global), (''custom/thing'', Global),
         (''nlu/detect-intent'', Local), (''builtin/custom'', Local), (''hello'', Local)])"
proof -
  define s1 where "s1 = snd (listActions exampleEnv newService)"
  have r: "reachable exampleEnv s1"
    unfolding s1_def by (rule reachable.listed [OF reachable.constructed])
  have c: "globalActionsCache s1 \<noteq> None" "localActionsCache s1 \<noteq> None"
    unfolding s1_def by code_simp+
  have "case fst (listActions exampleEnv s1) of Inr x \<Rightarrow> True | Inl e \<Rightarrow> False"
    unfolding s1_def by code_simp
  then obtain actions s' where e: "listActions exampleEnv s1 = (Inr actions, s')"
    by (cases "listActions exampleEnv s1") (auto split: sum.splits)
  have l: "map (\<lambda>f. (replaceJs f, Global)) (filter (enabled exampleEnv) (globalListing exampleEnv)) @
           map (\<lambda>f. (replaceJs f, Local)) (filter (enabled exampleEnv) (localListing exampleEnv)) =
           [(''nlu/detect-intent'', Global), (''custom/thing'', Global),
            (''nlu/detect-intent'', Local), (''builtin/custom'', Local), (''hello'', Local)]"
    by code_simp
  from listActions_global_then_local [OF r e] l
  have "map (\<lambda>a. (name a, location a)) actions =
        [(''nlu/detect-intent'', Global), (''custom/thing'', Global),
         (''nlu/detect-intent'', Local), (''builtin/custom'', Local), (''hello'', Local)]"
    by simp
  with r c e show ?thesis unfolding s1_def [symmetric] by simp
qed

subsection \<open>Trust classification\<close>

text \<open>
  Claim C6. Given the global catalog, \<open>isTrustedAction\<close> answers \<open>True\<close> exactly when the
  text of the name before its first \<open>/\<close> is one of the built-in module names and the global
  catalog has an action of that name. The bot-level catalog plays no part: a name that only a
  bot-level action carries is not trusted, whatever its namespace.
\<close>

theorem isTrustedAction_iff:
  assumes "listGlobalActions env s = (Inr globalActions, s')"
  shows "isTrustedAction env actionName' s =
           (Inr (splitHead actionName' \<in> set BUILTIN_MODULES \<and>
                 (\<exists>a \<in> set globalActions. name a = actionName')), s')"
  using assms by (auto simp: isTrustedAction_def listTrustedActions_def await_def)

theorem isTrustedAction_iff_witness:
  "\<exists>g s'. listGlobalActions exampleEnv newService = (Inr g, s') \<and>
      isTrustedAction exampleEnv ''nlu/detect-intent'' newService = (Inr True, s') \<and>
      isTrustedAction exampleEnv ''builtin/custom'' newService = (Inr False, s') \<and>
      isTrustedAction exampleEnv ''custom/thing'' newService = (Inr False, s')"
proof -
  have "case fst (listGlobalActions exampleEnv newService) of Inr x \<Rightarrow> True | Inl e \<Rightarrow> False"
    by code_simp
  then obtain g s' where e: "listGlobalActions exampleEnv newService = (Inr g, s')"
    by (cases "listGlobalActions exampleEnv newService") (auto split: sum.splits)
  have "map name (case fst (listGlobalActions exampleEnv newService) of Inr x \<Rightarrow> x | Inl e \<Rightarrow> []) =
          [''nlu/detect-intent'', ''custom/thing'']"
    by code_simp
  with e have n: "name ` set g = {''nlu/detect-intent'', ''custom/thing''}"
    by (simp flip: set_map)
  have b: "splitHead ''nlu/detect-intent'' \<in> set BUILTIN_MODULES"
          "splitHead ''builtin/custom'' \<in> set BUILTIN_MODULES"
          "splitHead ''custom/thing'' \<notin> set BUILTIN_MODULES"
    by code_simp+
  have x: "\<And>k. (\<exists>a \<in> set g. name a = k) \<longleftrightarrow> k \<in> name ` set g" by auto
  from isTrustedAction_iff [OF e, of "''nlu/detect-intent''"]
       isTrustedAction_iff [OF e, of "''builtin/custom''"]
       isTrustedAction_iff [OF e, of "''custom/thing''"] b e
  show ?thesis unfolding x n by simp
qed

subsection \<open>Remote delegation\<close>




text \<open>
  Claim C4, as amended. A call of \<open>runInActionServer\<close> appends to the tasks repository:
  nothing when the workspace of the bot cannot be resolved (no request is sent); one task with
  status \<open>completed\<close> when the request receives a response, whatever its status code; one
  task with status \<open>failed\<close> and the reason \<^verbatim>\<open>axios:\<close> followed by the error code when
  the request fails with an error that \<^verbatim>\<open>axios\<close> marks as its own; nothing when the request
  fails with any other error.
\<close>

theorem runInActionServer_tasks:
  "tasks (snd (runInActionServer env props srv s)) =
     tasks s @
     (case fst (getWorkspaceIdForBot env (botId (incomingEvent props)) s) of
        Inl e \<Rightarrow> []
      | Inr workspaceId \<Rightarrow>
          (case axios env (actionRunRequest env props srv workspaceId) of
             Inr response \<Rightarrow> [taskInfo env props srv completed None]
           | Inl e \<Rightarrow>
               if isAxiosError e
               then [taskInfo env props srv failed (Some (axiosFailureReason e))]
               else []))"
  by (auto simp: runInActionServer_def getWorkspaceIdForBot_def await_def createTask_def Let_def
           split: option.splits sum.splits)

theorem runInActionServer_tasks_witness:
  "tasks (snd (runInActionServer serverErrorEnv (exampleProps ''hello'' (Some exampleServer)) exampleServer newService)) =
     [\<lparr>taskEventId = ''evt-1'', taskActionName = ''hello'', taskActionArgs = ''args'',
       taskActionServerId = ''srv-1'', startedAt = 0, endedAt = 1, status = completed,
       failureReason = None\<rparr>] \<and>
   tasks (snd (runInActionServer timeoutEnv (exampleProps ''hello'' (Some exampleServer)) exampleServer newService)) =
     [\<lparr>taskEventId = ''evt-1'', taskActionName = ''hello'', taskActionArgs = ''args'',
       taskActionServerId = ''srv-1'', startedAt = 0, endedAt = 1, status = failed,
       failureReason = Some ''axios:ECONNABORTED''\<rparr>]"
proof -
  have a: "tasks newService = []" by (simp add: newService_def)
  have b: "(case fst (getWorkspaceIdForBot serverErrorEnv (botId (incomingEvent (exampleProps ''hello'' (Some exampleServer)))) newService) of
        Inl e \<Rightarrow> []
      | Inr workspaceId \<Rightarrow>
          (case axios serverErrorEnv (actionRunRequest serverErrorEnv (exampleProps ''hello'' (Some exampleServer)) exampleServer workspaceId) of
             Inr response \<Rightarrow> [taskInfo serverErrorEnv (exampleProps ''hello'' (Some exampleServer)) exampleServer completed None]
           | Inl e \<Rightarrow>
               if isAxiosError e
               then [taskInfo serverErrorEnv (exampleProps ''hello'' (Some exampleServer)) exampleServer failed (Some (axiosFailureReason e))]
               else [])) = [\<lparr>taskEventId = ''evt-1'', taskActionName = ''hello'', taskActionArgs = ''args'',
       taskActionServerId = ''srv-1'', startedAt = 0, endedAt = 1, status = completed,
       failureReason = None\<rparr>]"
    by code_simp
  have c: "(case fst (getWorkspaceIdForBot timeoutEnv (botId (incomingEvent (exampleProps ''hello'' (Some exampleServer)))) newService) of
        Inl e \<Rightarrow> []
      | Inr workspaceId \<Rightarrow>
          (case axios timeoutEnv (actionRunRequest timeoutEnv (exampleProps ''hello'' (Some exampleServer)) exampleServer workspaceId) of
             Inr response \<Rightarrow> [taskInfo timeoutEnv (exampleProps ''hello'' (Some exampleServer)) exampleServer completed None]
           | Inl e \<Rightarrow>
               if isAxiosError e
               then [taskInfo timeoutEnv (exampleProps ''hello'' (Some exampleServer)) exampleServer failed (Some (axiosFailureReason e))]
               else [])) = [\<lparr>taskEventId = ''evt-1'', taskActionName = ''hello'', taskActionArgs = ''args'',
       taskActionServerId = ''srv-1'', startedAt = 0, endedAt = 1, status = failed,
       failureReason = Some ''axios:ECONNABORTED''\<rparr>]"
    by code_simp
  show ?thesis
    unfolding runInActionServer_tasks a b c by simp
qed

text \<open>
  Claim C4 as stated fails: a request that \<^verbatim>\<open>axios\<close> rejects with an error that is not
  its own (here a body that cannot be serialised) is an attempt that leaves no task.
\<close>

theorem runInActionServer_no_task_for_other_errors:
  "fst (runInActionServer circularEnv (exampleProps ''hello'' (Some exampleServer)) exampleServer newService) =
     Inl (ErrorObject circularError) \<and>
   effects (snd (runInActionServer circularEnv (exampleProps ''hello'' (Some exampleServer)) exampleServer newService)) =
     [HttpPost (actionRunRequest circularEnv (exampleProps ''hello'' (Some exampleServer)) exampleServer ''default'')] \<and>
   tasks (snd (runInActionServer circularEnv (exampleProps ''hello'' (Some exampleServer)) exampleServer newService)) = []"
  by code_simp

subsection \<open>The execution router\<close>













subsection \<open>Errors of a run\<close>





subsection \<open>The event of a remote run\<close>

text \<open>
  Claim C3 at a remote delegation that succeeds: the server answers 200 with an event of its
  own. \<open>runInActionServer\<close> yields that event with the status code in its \<open>temp\<close>;
  \<open>runAction\<close> resolves, the event object of the caller is as it was passed in, and the
  returned event has reached the local variable only (its bot id shows in the last debug line).
\<close>

theorem runAction_remote_event_not_handed_back:
  "fst (runInActionServer exampleEnv (exampleProps ''hello'' (Some exampleServer)) exampleServer newService) =
     Inr (remoteEvent\<lparr>state := (state remoteEvent)\<lparr>temp := [(''answer'', JNum 42), (''responseStatusCode'', JNum 200)]\<rparr>\<rparr>) \<and>
   map_option fst (runAction 0 exampleEnv (exampleProps ''hello'' (Some exampleServer)) newService) =
     Some (Inr exampleEvent) \<and>
   map_option (debugLog \<circ> snd) (runAction 0 exampleEnv (exampleProps ''hello'' (Some exampleServer)) newService) =
     Some [(''bot1'', ''run action''), (''remote-bot'', ''done running'')]"
  by code_simp

subsection \<open>Validation of required files\<close>

text \<open>Fuel only bounds the depth of the recursion: a result obtained with some fuel is the
  result with more fuel.\<close>

lemma requiredFilesLoop_mono:
  assumes "\<And>f s x. recur f s = Some x \<Longrightarrow> recur' f s = Some x"
  shows "requiredFilesLoop recur env a parent files s = Some r \<Longrightarrow>
         requiredFilesLoop recur' env a parent files s = Some r"
proof (induction files arbitrary: s)
  case Nil
  then show ?case by simp
next
  case (Cons f fs)
  show ?case
  proof (cases "prepareRequireTester env (detDirPath parent) (detLookups parent) f")
    case True
    with Cons show ?thesis by simp
  next
    case False
    with Cons.prems obtain x where x: "recur f s = Some x"
      by (auto split: option.splits)
    from assms [OF x] have x': "recur' f s = Some x" .
    from Cons.prems False x x' Cons.IH show ?thesis
      by (auto split: prod.splits sum.splits)
  qed
qed

lemma checkActionRequires_more_fuel:
  "checkActionRequires n env a s = Some r \<Longrightarrow> checkActionRequires (Suc n) env a s = Some r"
proof (induction n arbitrary: a s r)
  case 0
  then show ?case by simp
next
  case (Suc n)
  show ?case
  proof (cases "isValidScript s a")
    case True
    with Suc.prems show ?thesis by simp
  next
    case False
    obtain d s1 where d: "getActionDetails env a s = (d, s1)"
      by (cases "getActionDetails env a s")
    show ?thesis
    proof (cases d)
      case (Inl e)
      with Suc.prems False d show ?thesis by simp
    next
      case (Inr parent)
      with Suc.prems False d obtain l where
        l: "requiredFilesLoop (checkActionRequires n env) env a parent
              (extractRequiredFiles env (detCode parent)) s1 = Some l"
        by (auto split: option.splits)
      have l': "requiredFilesLoop (checkActionRequires (Suc n) env) env a parent
              (extractRequiredFiles env (detCode parent)) s1 = Some l"
        by (rule requiredFilesLoop_mono [OF _ l]) (rule Suc.IH)
      have "checkActionRequires (Suc (Suc n)) env a s =
              (case Some l of None \<Rightarrow> None
               | Some (completedLoop, s2) \<Rightarrow>
                  if completedLoop then Some (Inr True, markValidScript a s2)
                  else Some (Inr False, s2))"
        using False d Inr l' by (subst checkActionRequires.simps(2)) simp
      moreover have "checkActionRequires (Suc n) env a s =
              (case Some l of None \<Rightarrow> None
               | Some (completedLoop, s2) \<Rightarrow>
                  if completedLoop then Some (Inr True, markValidScript a s2)
                  else Some (Inr False, s2))"
        using False d Inr l by simp
      ultimately show ?thesis using Suc.prems by simp
    qed
  qed
qed














lemma cyclicEnv_fields:
  "thisBotId cyclicEnv = ''bot1''"
  "localReadFile cyclicEnv = (\<lambda>f. Inr (''local:'' @ f))"
  "pathResolveJoin cyclicEnv = (\<lambda>a b. a @ b)"
  "PROJECT_LOCATION cyclicEnv = ''/bp''"
  "getBaseLookupPaths cyclicEnv = (\<lambda>dirPath. [dirPath])"
  "extractRequiredFiles cyclicEnv = (\<lambda>script. if script = ''local:hello.js'' then [''hello''] else [])"
  "prepareRequireTester cyclicEnv = (\<lambda>parent lookups f. False)"
  by (simp_all add: cyclicEnv_def exampleEnv_def)

lemma helloListed_getActionDetails:
  assumes "helloListed s"
  shows "\<exists>s'. getActionDetails cyclicEnv ''hello'' s = (Inr helloDetails, s') \<and> helloListed s'"
proof -
  from assms obtain g l where
    g: "globalActionsCache s = Some g" and l: "localActionsCache s = Some l" and
    f: "find (\<lambda>x. name x = ''hello'') (g @ l) = Some helloDefinition" and
    c: "map_of (scriptsCache s) ''hello'' = None" and v: "\<not> isValidScript s ''hello''"
    by (auto simp: helloListed_def split: option.splits)
  have la: "listActions cyclicEnv s = (Inr (g @ l), s)"
    using g l by (simp add: listActions_def listGlobalActions_def listLocalActions_def await_def)
  have fa: "findAction cyclicEnv ''hello'' s = (Inr helloDefinition, s)"
    using la f by (simp add: findAction_def await_def)
  define s' where "s' = s\<lparr>effects := effects s @ [ReadFile Local ''hello.js''],
                         scriptsCache := AList.update ''hello_true_local'' ''local:hello.js'' (scriptsCache s)\<rparr>"
  have gs: "getActionScript cyclicEnv helloDefinition s = (Inr ''local:hello.js'', s')"
    using c by (simp add: getActionScript_def helloDefinition_def readFileAsString_def await_def
        readFile_def fromLibrary_def scriptFile_def scriptKey_def cyclicEnv_fields boolString_def
        locationString_def s'_def)
  have d: "getActionDetails cyclicEnv ''hello'' s = (Inr helloDetails, s')"
    using fa gs by (simp add: getActionDetails_def await_def helloDetails_def cyclicEnv_fields
        helloDefinition_def Let_def)
  have "helloListed s'"
    using g l f c v by (simp add: helloListed_def s'_def isValidScript_def update_conv')
  with d show ?thesis by blast
qed

lemma helloListed_diverges:
  "helloListed s \<Longrightarrow> checkActionRequires fuel cyclicEnv ''hello'' s = None"
proof (induction fuel arbitrary: s)
  case 0
  show ?case by simp
next
  case (Suc fuel)
  from helloListed_getActionDetails [OF Suc.prems] obtain s' where
    d: "getActionDetails cyclicEnv ''hello'' s = (Inr helloDetails, s')" and i: "helloListed s'"
    by blast
  from Suc.prems have v: "\<not> isValidScript s ''hello''" by (simp add: helloListed_def)
  from Suc.IH [OF i] d v show ?case
    by (simp add: cyclicEnv_fields helloDetails_def)
qed

text \<open>
  Claim C7 for a script that requires itself: on a new service \<open>checkActionRequires\<close>
  yields no result with any amount of fuel, that is, the call does not return.
\<close>

theorem checkActionRequires_self_reference_diverges:
  "checkActionRequires fuel cyclicEnv ''hello'' newService = None"
proof (cases fuel)
  case 0
  then show ?thesis by simp
next
  case (Suc n)
  define s1 where "s1 = snd (getActionDetails cyclicEnv ''hello'' newService)"
  have d: "fst (getActionDetails cyclicEnv ''hello'' newService) = Inr helloDetails"
    by code_simp
  have i: "helloListed s1"
    unfolding s1_def by code_simp
  have v: "\<not> isValidScript newService ''hello''"
    by code_simp
  from d have e: "getActionDetails cyclicEnv ''hello'' newService = (Inr helloDetails, s1)"
    by (simp add: prod_eq_iff s1_def)
  from helloListed_diverges [OF i, of n] v e show ?thesis
    unfolding Suc by (simp add: cyclicEnv_fields helloDetails_def)
qed

subsection \<open>Name collisions between the scopes\<close>

text \<open>
  Claim C10 for a global and a bot-level action named \<^verbatim>\<open>x_true_local\<close> beside a
  bot-level action \<^verbatim>\<open>x\<close>: \<open>findAction\<close> resolves the name to the global definition,
  whose script is \<^verbatim>\<open>global:x_true_local.js\<close>, and \<open>runAction\<close> runs the script of the
  bot-level action \<^verbatim>\<open>x\<close>, which the script cache holds under the key
  \<^verbatim>\<open>x_true_local\<close>. The reads of the run are those of the two listings: the global
  file once, and both bot-level files, whose look-ups in the cache come before either of
  them is stored.
\<close>

theorem runAction_runs_other_script_on_collision:
  "fst (findAction collidingEnv ''x_true_local'' newService) =
     Inr \<lparr>name = ''x_true_local'', isRemote = False, location = Global, legacy = True,
           metadata = Some ''meta''\<rparr> \<and>
   globalReadFile collidingEnv ''x_true_local.js'' = Inr ''global:x_true_local.js'' \<and>
   map_option (effects \<circ> snd) (runAction 0 collidingEnv (exampleProps ''x_true_local'' None) newService) =
     Some [ReadFile Global ''x_true_local.js'', ReadFile Local ''x.js'',
           ReadFile Local ''x_true_local.js'',
           RunInVm ''local:x.js'' ''/bp/data/global/actions/x_true_local.js'' 5000 exampleEvent ''args'']"
  by code_simp

subsection \<open>Cache invalidation\<close>

lemma onInvalidation_inside:
  "window l = Some start \<Longrightarrow> now < start + DEBOUNCE_DELAY \<Longrightarrow> onInvalidation now key l = l"
  by (simp add: onInvalidation_def debounce_def)

lemma onInvalidations_inside:
  "window l = Some start \<Longrightarrow> \<forall>e \<in> set es. fst e < start + DEBOUNCE_DELAY \<Longrightarrow>
     onInvalidations es l = l"
  by (induction es) (auto simp: onInvalidation_inside)

lemma onInvalidation_leading:
  assumes "indexOf (toLowerCase key) ''/actions'' > - 1"
    and "case window l of None \<Rightarrow> True | Some start \<Rightarrow> start + DEBOUNCE_DELAY \<le> now"
  shows "onInvalidation now key l =
           l\<lparr>service := clearCache (service l), window := Some now, clears := clears l + 1\<rparr>"
  using assms by (auto simp: onInvalidation_def debounce_def split: option.splits)

lemma onInvalidations_append:
  "onInvalidations (es @ fs) l = onInvalidations fs (onInvalidations es l)"
  by (induction es arbitrary: l) auto

text \<open>
  Claim C9. Let an event whose key contains \<^verbatim>\<open>/actions\<close>, in any letter case, arrive at
  time \<open>t0\<close> when no window is open. It clears the caches at once: the global and the
  bot-level catalog, the script cache, the validated scripts and the workspace memo are empty.
  Whatever events follow before \<open>t0 + 2000\<close> are dropped: after them the caches have been
  cleared once and nothing else has changed. An event with such a key at \<open>t0 + 2000\<close> or
  later clears once more.
\<close>

theorem invalidation_debounce:
  assumes "case window l of None \<Rightarrow> True | Some start \<Rightarrow> start + DEBOUNCE_DELAY \<le> t0"
    and "indexOf (toLowerCase key0) ''/actions'' > - 1"
    and "\<forall>e \<in> set es. fst e < t0 + DEBOUNCE_DELAY"
    and "indexOf (toLowerCase key1) ''/actions'' > - 1"
    and "t0 + DEBOUNCE_DELAY \<le> t1"
  shows "onInvalidations ((t0, key0) # es) l =
           l\<lparr>service := clearCache (service l), window := Some t0, clears := clears l + 1\<rparr> \<and>
         clears (onInvalidations ((t0, key0) # es @ [(t1, key1)]) l) = clears l + 2 \<and>
         globalActionsCache (clearCache (service l)) = None \<and>
         localActionsCache (clearCache (service l)) = None \<and>
         scriptsCache (clearCache (service l)) = [] \<and>
         validScripts (clearCache (service l)) = [] \<and>
         botsWorkspaceIdsCache (clearCache (service l)) = []"
proof -
  let ?l1 = "l\<lparr>service := clearCache (service l), window := Some t0, clears := clears l + 1\<rparr>"
  have first: "onInvalidation t0 key0 l = ?l1"
    by (rule onInvalidation_leading [OF assms(2) assms(1)])
  have w: "window ?l1 = Some t0" by simp
  have burst: "onInvalidations ((t0, key0) # es) l = ?l1"
    using onInvalidations_inside [OF w assms(3)] first by simp
  have "onInvalidations ((t0, key0) # es @ [(t1, key1)]) l = onInvalidation t1 key1 ?l1"
    using burst onInvalidations_append [of "(t0, key0) # es" "[(t1, key1)]" l] by simp
  also have "\<dots> = ?l1\<lparr>service := clearCache (service ?l1), window := Some t1, clears := clears ?l1 + 1\<rparr>"
    by (rule onInvalidation_leading [OF assms(4)]) (simp add: assms(5))
  finally have later: "clears (onInvalidations ((t0, key0) # es @ [(t1, key1)]) l) = clears l + 2"
    by simp
  from burst later show ?thesis by (simp add: clearCache_def)
qed

theorem invalidation_debounce_witness:
  "clears (onInvalidations [(0, actionsKey), (100, actionsKey), (200, actionsKey), (300, actionsKey), (400, actionsKey)] newListener) = 1 \<and>
   clears (onInvalidations [(0, actionsKey), (100, actionsKey), (200, actionsKey), (300, actionsKey), (400, actionsKey), (3000, actionsKey)] newListener) = 2 \<and>
   service (onInvalidations [(0, actionsKey), (100, actionsKey), (200, actionsKey), (300, actionsKey), (400, actionsKey)] newListener) = clearCache newService"
proof -
  have k: "indexOf (toLowerCase actionsKey) ''/actions'' > - 1" by code_simp
  have w: "case window newListener of None \<Rightarrow> True | Some start \<Rightarrow> start + DEBOUNCE_DELAY \<le> 0"
    by (simp add: newListener_def)
  have i: "\<forall>e \<in> set [(100, actionsKey), (200, actionsKey), (300, actionsKey), (400::nat, actionsKey)]. fst e < 0 + DEBOUNCE_DELAY"
    by (simp add: DEBOUNCE_DELAY_def)
  have t: "0 + DEBOUNCE_DELAY \<le> 3000" by (simp add: DEBOUNCE_DELAY_def)
  from invalidation_debounce [OF w k i k t] show ?thesis
    by (simp add: newListener_def del: onInvalidations.simps)
qed


end
